theory Spec2Isabelle
  imports Complex_Main
begin

section \<open>Data model\<close>

text \<open>
  The sync core is the class \<open>DataSync\<close> with its two fields \<open>_ydoc\<close> and \<open>provider\<close>,
  the stored \<open>syncParams\<close>, and the service wrapper \<open>GlobalService\<close>. Objects created with
  \<open>new\<close> (documents, providers) are references, modelled as natural numbers drawn from a
  counter; every call the code makes on a collaborator (the document, the transport
  provider, the callbacks of the host) is appended to a trace, in program order.
\<close>

type_synonym ident = string

datatype tableKey = Sessions | SessionGroups | Topics | Messages | Plugins

datatype status = Ready | Syncing | Synced

datatype error = ReferenceError | TypeError | StoreError

datatype 'a outcome = Returned 'a | Threw error

record channel =
  name :: string
  password :: string

text \<open>\<open>StartDataSyncParams\<close>: the callbacks are the host's; a call of one is a trace entry.\<close>

record params =
  channel :: channel
  signaling :: "string option"
  user :: string

text \<open>The execution environment: whether \<open>window\<close> is declared, and \<open>process.env.NODE_ENV\<close>.\<close>

record env =
  hasWindow :: bool
  NODE_ENV :: string

record item =
  item_id :: ident
  item_data :: string

text \<open>
  A document holds one replicated map for each table; \<open>transactions\<close> lists, in order, what
  each \<open>transact\<close> call wrote (the table and the records set in that call).
\<close>

record ydoc_content =
  ymaps :: "tableKey \<Rightarrow> ident \<rightharpoonup> item"
  transactions :: "(tableKey \<times> item list) list"

datatype effect =
    NewDoc nat
  | DocDestroy nat
  | Observe tableKey nat
  | NewProvider nat string nat string string
  | OnStatus nat
  | OnSynced nat
  | AwarenessDestroy nat
  | RoomDisconnect nat
  | RoomDestroy nat
  | ProviderDisconnect nat
  | ProviderDestroy nat
  | SetLocalState nat string
  | AwarenessChange nat string
  | OnAwarenessChange nat

text \<open>
  The instance of \<open>DataSync\<close> and the world around it: \<open>devSlot\<close> is
  \<open>window.__ONLY_USE_FOR_CLEANUP_IN_DEV\<close>, \<open>rooms\<close> the providers whose \<open>room\<close> is not null
  (the transport opens the room on its own), \<open>docs\<close> the contents of the documents,
  \<open>nextRef\<close> the next fresh reference.
\<close>

record data_sync =
  ydoc :: "nat option"
  provider :: "nat option"
  syncParams :: "params option"
  onAwarenessChange :: bool
  devSlot :: "nat option"
  rooms :: "nat list"
  docs :: "nat \<Rightarrow> ydoc_content"
  nextRef :: nat
  trace :: "effect list"

definition empty_doc :: ydoc_content where
  "empty_doc = \<lparr>ymaps = (\<lambda>k. Map.empty), transactions = []\<rparr>"

definition init_state :: data_sync where
  "init_state = \<lparr>ydoc = None, provider = None, syncParams = None, onAwarenessChange = False,
     devSlot = None, rooms = [], docs = (\<lambda>d. empty_doc), nextRef = 0, trace = []\<rparr>"

definition tableKeys :: "tableKey list" where
  "tableKeys = [Sessions, SessionGroups, Topics, Messages, Plugins]"

section \<open>Connection manager\<close>

definition emit :: "effect list \<Rightarrow> data_sync \<Rightarrow> data_sync" where
  "emit es s = s\<lparr>trace := trace s @ es\<rparr>"

text \<open>\<open>initYDoc\<close>: returns at once without a window, else creates the document.\<close>

definition initYDoc :: "env \<Rightarrow> data_sync \<Rightarrow> data_sync" where
  "initYDoc e s =
     (if \<not> hasWindow e then s
      else emit [NewDoc (nextRef s)]
             (s\<lparr>ydoc := Some (nextRef s),
                docs := (docs s)(nextRef s := empty_doc),
                nextRef := Suc (nextRef s)\<rparr>))"

text \<open>
  \<open>observeYMapChange\<close> registers the observer on \<open>this._ydoc?.getMap(tableKey)\<close>: nothing is
  registered when there is no document. The observer itself is modelled further below.
\<close>

definition observeYMapChange :: "tableKey \<Rightarrow> data_sync \<Rightarrow> data_sync" where
  "observeYMapChange k s = (case ydoc s of None \<Rightarrow> s | Some d \<Rightarrow> emit [Observe k d] s)"

definition initYjsObserve :: "data_sync \<Rightarrow> data_sync" where
  "initYjsObserve s = fold observeYMapChange tableKeys s"

text \<open>\<open>initAwareness\<close> uses the callback stored by \<open>startDataSync\<close>, not the one of its argument.\<close>

definition initAwareness :: "string \<Rightarrow> data_sync \<Rightarrow> data_sync" where
  "initAwareness u s =
     (case provider s of
        None \<Rightarrow> s
      | Some p \<Rightarrow>
          emit ([SetLocalState p u]
                @ (if onAwarenessChange s then [AwarenessChange p u] else [])
                @ [OnAwarenessChange p]) s)"

definition default_signaling :: string where
  "default_signaling = ''wss://y-webrtc-signaling.lobehub.com''"

text \<open>
  The part of \<open>connect\<close> after the second dynamic import. The provider is constructed on
  \<open>this._ydoc!\<close>; its constructor (of the transport library) reads the document it is given, so
  on a null document it throws a \<open>TypeError\<close> and nothing is assigned. Then the development
  slot is written (a \<open>ReferenceError\<close> where \<open>window\<close> is not declared), the two handlers are
  registered, awareness starts.
\<close>

definition connect_provider :: "env \<Rightarrow> params \<Rightarrow> data_sync \<Rightarrow> nat outcome \<times> data_sync" where
  "connect_provider e ps s =
     (case ydoc s of
        None \<Rightarrow> (Threw TypeError, s)
      | Some d \<Rightarrow>
          (let p = nextRef s;
               sg = (case signaling ps of None \<Rightarrow> default_signaling | Some g \<Rightarrow> g);
               s1 = emit [NewProvider p (name (channel ps)) d (password (channel ps)) sg]
                      (s\<lparr>provider := Some p, nextRef := Suc p\<rparr>)
           in if NODE_ENV e = ''development'' \<and> \<not> hasWindow e then (Threw ReferenceError, s1)
              else
                let s2 = (if NODE_ENV e = ''development'' then s1\<lparr>devSlot := Some p\<rparr> else s1);
                    s3 = emit [OnStatus p, OnSynced p] s2
                in (Returned p, initAwareness (user ps) s3)))"

definition connect :: "env \<Rightarrow> params \<Rightarrow> data_sync \<Rightarrow> nat outcome \<times> data_sync" where
  "connect e ps s = connect_provider e ps (initYjsObserve (initYDoc e s))"

text \<open>
  \<open>cleanConnection\<close>: nothing for \<open>null\<close>; else awareness, room (when the provider has one),
  provider, document (when the field holds one). No field is reset.
\<close>

definition releases :: "nat \<Rightarrow> data_sync \<Rightarrow> effect list" where
  "releases p s =
     [AwarenessDestroy p]
     @ (if p \<in> set (rooms s) then [RoomDisconnect p, RoomDestroy p] else [])
     @ [ProviderDisconnect p, ProviderDestroy p]
     @ (case ydoc s of None \<Rightarrow> [] | Some d \<Rightarrow> [DocDestroy d])"

definition cleanConnection :: "nat option \<Rightarrow> data_sync \<Rightarrow> data_sync" where
  "cleanConnection pv s = (case pv of None \<Rightarrow> s | Some p \<Rightarrow> emit (releases p s) s)"

definition reconnect :: "env \<Rightarrow> params \<Rightarrow> data_sync \<Rightarrow> nat outcome \<times> data_sync" where
  "reconnect e ps s = connect e ps (cleanConnection (provider s) s)"

text \<open>
  \<open>manualSync\<close> passes \<open>this.syncParams\<close>; while that is undefined the teardown still runs
  and \<open>connect\<close> fails on destructuring its argument.
\<close>

definition manualSync :: "env \<Rightarrow> data_sync \<Rightarrow> nat outcome \<times> data_sync" where
  "manualSync e s =
     (case syncParams s of
        None \<Rightarrow> (Threw TypeError, cleanConnection (provider s) s)
      | Some ps \<Rightarrow> reconnect e ps s)"

definition startDataSync :: "env \<Rightarrow> params \<Rightarrow> data_sync \<Rightarrow> nat outcome \<times> data_sync" where
  "startDataSync e ps s =
     (let s1 = s\<lparr>syncParams := Some ps, onAwarenessChange := True\<rparr>
      in if \<not> hasWindow e then (Threw ReferenceError, s1)
         else connect e ps (cleanConnection (devSlot s1) s1))"

text \<open>
  \<open>transact\<close> and \<open>getYMap\<close> go through \<open>this._ydoc?.\<close>: nothing without a document. The
  function passed to \<open>transact\<close> is given by what it does, the records it sets in the map of
  a table; the document notes each transaction.
\<close>

definition set_items :: "item list \<Rightarrow> (ident \<rightharpoonup> item) \<Rightarrow> (ident \<rightharpoonup> item)" where
  "set_items xs m = fold (\<lambda>x m. m(item_id x \<mapsto> x)) xs m"

definition transact :: "tableKey \<Rightarrow> item list \<Rightarrow> data_sync \<Rightarrow> data_sync" where
  "transact k xs s =
     (case ydoc s of
        None \<Rightarrow> s
      | Some d \<Rightarrow>
          s\<lparr>docs := (docs s)(d :=
               (docs s d)\<lparr>ymaps := (ymaps (docs s d))(k := set_items xs (ymaps (docs s d) k)),
                          transactions := transactions (docs s d) @ [(k, xs)]\<rparr>)\<rparr>)"

definition getYMap :: "tableKey \<Rightarrow> data_sync \<Rightarrow> (ident \<rightharpoonup> item) option" where
  "getYMap k s = (case ydoc s of None \<Rightarrow> None | Some d \<Rightarrow> Some (ymaps (docs s d) k))"

subsection \<open>The service wrapper\<close>

text \<open>
  \<open>GlobalService.enabledSync\<close> and \<open>GlobalService.reconnect\<close> (here \<open>service_reconnect\<close>, the
  name \<open>reconnect\<close> being that of the sync core's own): both return false at once without a
  window, and pass on what the sync core throws.
\<close>

definition enabledSync :: "env \<Rightarrow> params \<Rightarrow> data_sync \<Rightarrow> bool outcome \<times> data_sync" where
  "enabledSync e ps s =
     (if \<not> hasWindow e then (Returned False, s)
      else case startDataSync e ps s of
             (Threw x, s1) \<Rightarrow> (Threw x, s1)
           | (Returned _, s1) \<Rightarrow> (Returned True, s1))"

definition service_reconnect :: "env \<Rightarrow> params \<Rightarrow> data_sync \<Rightarrow> bool outcome \<times> data_sync" where
  "service_reconnect e ps s =
     (if \<not> hasWindow e then (Returned False, s)
      else case reconnect e ps s of
             (Threw x, s1) \<Rightarrow> (Threw x, s1)
           | (Returned _, s1) \<Rightarrow>
               (case manualSync e s1 of
                  (Threw x, s2) \<Rightarrow> (Threw x, s2)
                | (Returned _, s2) \<Rightarrow> (Returned True, s2)))"

subsection \<open>Call sequences\<close>

text \<open>
  The calls a host can make on the sync core, run one after the other: each call has
  finished (or thrown) before the next begins, and what it changed stays.
\<close>

datatype call = StartDataSync params | Reconnect params | ManualSync

definition perform :: "env \<Rightarrow> call \<Rightarrow> data_sync \<Rightarrow> nat outcome \<times> data_sync" where
  "perform e c s =
     (case c of
        StartDataSync ps \<Rightarrow> startDataSync e ps s
      | Reconnect ps \<Rightarrow> reconnect e ps s
      | ManualSync \<Rightarrow> manualSync e s)"

definition run_calls :: "env \<Rightarrow> call list \<Rightarrow> data_sync \<Rightarrow> data_sync" where
  "run_calls e cs s = fold (\<lambda>c t. snd (perform e c t)) cs s"

fun is_start :: "call \<Rightarrow> bool" where
  "is_start (StartDataSync ps) = True"
| "is_start c = False"

text \<open>The parameters \<open>startDataSync\<close> was last called with, read off a call sequence.\<close>

definition last_start :: "call list \<Rightarrow> params option" where
  "last_start cs =
     fold (\<lambda>c a. case c of StartDataSync ps \<Rightarrow> Some ps | Reconnect ps \<Rightarrow> a | ManualSync \<Rightarrow> a)
       cs None"

text \<open>
  The specification's reading of "last-used parameters": those of the most recent
  \<open>startDataSync\<close> or \<open>reconnect\<close> call.
\<close>

definition spec_last_used :: "call list \<Rightarrow> params option" where
  "spec_last_used cs =
     fold (\<lambda>c a. case c of StartDataSync ps \<Rightarrow> Some ps | Reconnect ps \<Rightarrow> Some ps | ManualSync \<Rightarrow> a)
       cs None"

subsection \<open>Live providers and documents\<close>

text \<open>
  A provider is live from its construction to \<open>provider.destroy()\<close>, a document from its
  construction to \<open>doc.destroy()\<close>. \<open>never_two\<close> reads a trace from the live lists \<open>P\<close> and
  \<open>D\<close> and says that at no moment are two providers, or two documents, live.
\<close>

fun liveProv :: "effect \<Rightarrow> nat list \<Rightarrow> nat list" where
  "liveProv (NewProvider p n d w g) P = p # P"
| "liveProv (ProviderDestroy p) P = removeAll p P"
| "liveProv x P = P"

fun liveDoc :: "effect \<Rightarrow> nat list \<Rightarrow> nat list" where
  "liveDoc (NewDoc d) D = d # D"
| "liveDoc (DocDestroy d) D = removeAll d D"
| "liveDoc x D = D"

fun never_two :: "nat list \<Rightarrow> nat list \<Rightarrow> effect list \<Rightarrow> bool" where
  "never_two P D [] = (length P \<le> 1 \<and> length D \<le> 1)"
| "never_two P D (x # xs) =
     (length P \<le> 1 \<and> length D \<le> 1 \<and> never_two (liveProv x P) (liveDoc x D) xs)"

definition live_providers :: "data_sync \<Rightarrow> nat list" where
  "live_providers s = fold liveProv (trace s) []"

definition live_docs :: "data_sync \<Rightarrow> nat list" where
  "live_docs s = fold liveDoc (trace s) []"

subsection \<open>Overlapping calls\<close>

text \<open>
  \<open>reconnect\<close> is asynchronous: it gives the event loop back at each \<open>await\<close>, and another
  call can run in between. Its pieces between two awaits, in order: the teardown, \<open>initYDoc\<close>,
  \<open>initYjsObserve\<close>, and the rest of \<open>connect\<close> from the construction of the provider on.
\<close>

datatype step = CleanStep | InitYDocStep | ObserveStep | ProviderStep params

definition do_step :: "env \<Rightarrow> step \<Rightarrow> data_sync \<Rightarrow> data_sync" where
  "do_step e st s =
     (case st of
        CleanStep \<Rightarrow> cleanConnection (provider s) s
      | InitYDocStep \<Rightarrow> initYDoc e s
      | ObserveStep \<Rightarrow> initYjsObserve s
      | ProviderStep ps \<Rightarrow> snd (connect_provider e ps s))"

definition reconnect_steps :: "params \<Rightarrow> step list" where
  "reconnect_steps ps = [CleanStep, InitYDocStep, ObserveStep, ProviderStep ps]"

text \<open>
  The state between two calls: nothing is live, or exactly the provider and the document the
  two fields hold; the development slot follows the provider in development only; without
  a window there is neither document nor provider.
\<close>

definition session_inv :: "env \<Rightarrow> data_sync \<Rightarrow> bool" where
  "session_inv e s =
     (((live_providers s = [] \<and> live_docs s = []) \<or>
       (\<exists>p d. live_providers s = [p] \<and> live_docs s = [d] \<and>
              provider s = Some p \<and> ydoc s = Some d))
      \<and> devSlot s = (if NODE_ENV e = ''development'' then provider s else None)
      \<and> (\<not> hasWindow e \<longrightarrow> ydoc s = None \<and> provider s = None))"

text \<open>
  \<open>starts_clear\<close> walks a call sequence from a state and says that no provider is live at the
  moment of any \<open>startDataSync\<close> call.
\<close>

fun starts_clear :: "env \<Rightarrow> call list \<Rightarrow> data_sync \<Rightarrow> bool" where
  "starts_clear e [] s = True"
| "starts_clear e (c # cs) s =
     ((is_start c \<longrightarrow> live_providers s = []) \<and> starts_clear e cs (snd (perform e c s)))"

section \<open>Bootstrap load\<close>

text \<open>
  \<open>loadDataFromDBtoYjs\<close> reads the whole table, then runs its loop without giving the event
  loop back: \<open>totalBatches\<close> is \<open>Math.ceil(items.length / batchSize)\<close>, \<open>slice\<close> is
  \<open>Array.prototype.slice\<close> on two indices in order, and each turn of the loop is one
  \<open>transact\<close> that sets the records of the slice. The result of \<open>table.toArray()\<close> for each
  table is a parameter: the records, or the error the read rejects with.
\<close>

definition batchSize :: nat where
  "batchSize = 50"

definition slice :: "nat \<Rightarrow> nat \<Rightarrow> 'a list \<Rightarrow> 'a list" where
  "slice start end xs = take (end - start) (drop start xs)"

definition totalBatches :: "nat \<Rightarrow> nat" where
  "totalBatches n = nat \<lceil>real n / real batchSize\<rceil>"

function loadBatches :: "tableKey \<Rightarrow> item list \<Rightarrow> nat \<Rightarrow> nat \<Rightarrow> data_sync \<Rightarrow> data_sync" where
  "loadBatches k items tot i s =
     (if i < tot
      then loadBatches k items tot (Suc i)
             (transact k (slice (i * batchSize) (i * batchSize + batchSize) items) s)
      else s)"
  by pat_completeness auto
termination
  by (relation "measure (\<lambda>(k, items, tot, i, s). tot - i)") auto

declare loadBatches.simps [simp del]

definition loadDataFromDBtoYjs ::
  "(tableKey \<Rightarrow> error + item list) \<Rightarrow> tableKey \<Rightarrow> data_sync \<Rightarrow> unit outcome \<times> data_sync" where
  "loadDataFromDBtoYjs db k s =
     (case db k of
        Inl x \<Rightarrow> (Threw x, s)
      | Inr items \<Rightarrow> (Returned (), loadBatches k items (totalBatches (length items)) 0 s))"

text \<open>
  \<open>Promise.all\<close> over promises that are already running: \<open>map\<close> has started every load
  before any of them resumes, so each runs to its end whatever the others do, and the
  whole rejects when one of them rejects. The loads write to different maps; the order
  in which they resume is taken to be the order of the list.
\<close>

fun promise_all :: "('s \<Rightarrow> unit outcome \<times> 's) list \<Rightarrow> 's \<Rightarrow> unit outcome \<times> 's" where
  "promise_all [] s = (Returned (), s)"
| "promise_all (f # fs) s =
     (case f s of (r, s1) \<Rightarrow>
        (case promise_all fs s1 of (r', s2) \<Rightarrow>
           ((case r of Threw x \<Rightarrow> Threw x | Returned u \<Rightarrow> r'), s2)))"

definition initSync :: "(tableKey \<Rightarrow> error + item list) \<Rightarrow> data_sync \<Rightarrow> unit outcome \<times> data_sync" where
  "initSync db s = promise_all (map (loadDataFromDBtoYjs db) tableKeys) s"

text \<open>The slices the loop walks through, and what a document holds for one table.\<close>

definition batches :: "item list \<Rightarrow> item list list" where
  "batches items =
     map (\<lambda>j. slice (j * batchSize) (j * batchSize + batchSize) items)
       [0..<totalBatches (length items)]"

definition table_view :: "tableKey \<Rightarrow> data_sync \<Rightarrow> ((ident \<rightharpoonup> item) \<times> (tableKey \<times> item list) list) option" where
  "table_view k s =
     (case ydoc s of
        None \<Rightarrow> None
      | Some d \<Rightarrow> Some (ymaps (docs s d) k, filter (\<lambda>t. fst t = k) (transactions (docs s d))))"

section \<open>Change observation\<close>

text \<open>
  The observer that \<open>observeYMapChange\<close> registers on the replicated map of one table. A
  change event carries whether its transaction is local, the changed keys with their
  actions, and the map it happened on (\<open>yItemMap.get(id)\<close> is read as the callback starts).
  Values read from the map or the store may be \<open>undefined\<close>.
\<close>

datatype action = Add | Update | Delete

datatype jsval = Undefined | Obj item

record yevent =
  transaction_local :: bool
  keys :: "(ident \<times> action) list"
  yItemMap :: "ident \<rightharpoonup> item"

text \<open>
  The state the callback closes over and acts on: the local table (\<open>rows\<close>) with the
  calls made on it in the order they are issued, the runs of the callback that wait at
  their \<open>await\<close> (\<open>pending\<close>: for each run its entries of \<open>pools\<close>), the variable
  \<open>debounceTimer\<close>, the timers pending in the event loop (identifier and the time each
  fires), the status changes emitted with their times, and the times \<open>updateSyncEvent\<close> was
  called. Times are in milliseconds. An entry of \<open>pools\<close> is its key, its action and what
  its read of the store gave.
\<close>

type_synonym pool = "ident \<times> action \<times> jsval"

datatype store_call =
    TableGet ident
  | TableAdd jsval ident
  | TableUpdate ident jsval
  | TableDelete ident

record observer =
  rows :: "ident \<rightharpoonup> jsval"
  calls :: "store_call list"
  pending :: "pool list list"
  debounceTimer :: "nat option"
  timers :: "(nat \<times> nat) list"
  nextTimer :: nat
  statusLog :: "(nat \<times> status) list"
  syncEvents :: "nat list"

text \<open>
  Modelled from the spec: the local store (\<open>LocalDBInstance\<close> of \<open>./db\<close>) is not among the
  sources; its per-table interface is \<open>get(id) -> record | absent\<close>, \<open>add(record, id)\<close>,
  \<open>update(id, record)\<close>, \<open>delete(id)\<close>. \<open>get\<close> of an absent identifier gives \<open>undefined\<close>.
\<close>

definition table_get :: "ident \<Rightarrow> observer \<Rightarrow> jsval \<times> observer" where
  "table_get i s =
     ((case rows s i of None \<Rightarrow> Undefined | Some v \<Rightarrow> v), s\<lparr>calls := calls s @ [TableGet i]\<rparr>)"

text \<open>Modelled from the spec: \<open>add(record, id)\<close> of the local store puts the record under \<open>id\<close>.\<close>

definition table_add :: "jsval \<Rightarrow> ident \<Rightarrow> observer \<Rightarrow> observer" where
  "table_add v i s = s\<lparr>rows := (rows s)(i \<mapsto> v), calls := calls s @ [TableAdd v i]\<rparr>"

text \<open>
  Modelled from the spec: \<open>update(id, record)\<close> of the local store changes the record under
  \<open>id\<close> when there is one.
\<close>

definition table_update :: "ident \<Rightarrow> jsval \<Rightarrow> observer \<Rightarrow> observer" where
  "table_update i v s =
     s\<lparr>rows := (if rows s i = None then rows s else (rows s)(i \<mapsto> v)),
       calls := calls s @ [TableUpdate i v]\<rparr>"

text \<open>Modelled from the spec: \<open>delete(id)\<close> of the local store removes by identifier.\<close>

definition table_delete :: "ident \<Rightarrow> observer \<Rightarrow> observer" where
  "table_delete i s = s\<lparr>rows := (rows s)(i := None), calls := calls s @ [TableDelete i]\<rparr>"

text \<open>
  The entries of \<open>pools\<close>. Each entry runs up to its own first \<open>await\<close> while the array is
  built: it reads the item from the map and calls the store, \<open>table.get\<close> for \<open>add\<close> and
  \<open>update\<close> (one branch of the switch), \<open>table.delete\<close> for \<open>delete\<close>. \<open>pool_start\<close> is that
  part. \<open>pool_finish\<close> is the rest of an \<open>add\<close> or \<open>update\<close> entry, after its read: add when
  the read gave nothing, update otherwise. So for an event with several keys every read
  and delete is issued, in the order of the keys, before the first write. \<open>apply_key\<close> is
  one entry from start to end. The keys of an event are those of a \<open>Map\<close>, so distinct.
\<close>

definition yget :: "yevent \<Rightarrow> ident \<Rightarrow> jsval" where
  "yget ev i = (case yItemMap ev i of None \<Rightarrow> Undefined | Some x \<Rightarrow> Obj x)"

fun pool_start :: "ident \<times> action \<Rightarrow> observer \<Rightarrow> pool \<times> observer" where
  "pool_start (i, Add) s =
     (case table_get i s of (itemInTable, s1) \<Rightarrow> ((i, Add, itemInTable), s1))"
| "pool_start (i, Update) s =
     (case table_get i s of (itemInTable, s1) \<Rightarrow> ((i, Update, itemInTable), s1))"
| "pool_start (i, Delete) s = ((i, Delete, Undefined), table_delete i s)"

fun pools_start :: "(ident \<times> action) list \<Rightarrow> observer \<Rightarrow> pool list \<times> observer" where
  "pools_start [] s = ([], s)"
| "pools_start (ka # kas) s =
     (case pool_start ka s of (p, s1) \<Rightarrow>
        (case pools_start kas s1 of (ps, s2) \<Rightarrow> (p # ps, s2)))"

fun pool_finish :: "yevent \<Rightarrow> pool \<Rightarrow> observer \<Rightarrow> observer" where
  "pool_finish ev (i, Add, itemInTable) s =
     (if itemInTable = Undefined then table_add (yget ev i) i s else table_update i (yget ev i) s)"
| "pool_finish ev (i, Update, itemInTable) s =
     (if itemInTable = Undefined then table_add (yget ev i) i s else table_update i (yget ev i) s)"
| "pool_finish ev (i, Delete, v) s = s"

definition apply_key :: "yevent \<Rightarrow> ident \<times> action \<Rightarrow> observer \<Rightarrow> observer" where
  "apply_key ev ka s = (case pool_start ka s of (p, s1) \<Rightarrow> pool_finish ev p s1)"

text \<open>
  The callback gives the event loop back at \<open>await Promise.all(pools)\<close>. \<open>begin_pools\<close> is
  the part before: clear the timer the variable names, emit \<open>syncing\<close>, start the entries of
  \<open>pools\<close>. \<open>finish_pools\<close> is the part after, at the time the writes are done: the writes
  that follow the reads, in the order of the keys, \<open>updateSyncEvent\<close>, then a new timer of
  2000 ms stored in the variable. \<open>observe\<close> is a whole run of the callback with nothing
  else in between, from \<open>now\<close> to \<open>done\<close>. When other tasks run in between, \<open>observe_begin\<close>
  leaves the run waiting and \<open>observe_finish\<close> continues the oldest run that waits on the
  keys of its event (nothing when no run does).
\<close>

definition clearTimeout :: "nat option \<Rightarrow> observer \<Rightarrow> observer" where
  "clearTimeout tid s = s\<lparr>timers := filter (\<lambda>(i, t). Some i \<noteq> tid) (timers s)\<rparr>"

definition begin_pools :: "nat \<Rightarrow> yevent \<Rightarrow> observer \<Rightarrow> pool list \<times> observer" where
  "begin_pools now ev s =
     (let s1 = clearTimeout (debounceTimer s) s;
          s2 = s1\<lparr>statusLog := statusLog s1 @ [(now, Syncing)]\<rparr>
      in pools_start (keys ev) s2)"

definition finish_pools :: "nat \<Rightarrow> yevent \<Rightarrow> pool list \<Rightarrow> observer \<Rightarrow> observer" where
  "finish_pools now ev ps s =
     (let s1 = fold (pool_finish ev) ps s;
          s2 = s1\<lparr>syncEvents := syncEvents s1 @ [now]\<rparr>
      in s2\<lparr>debounceTimer := Some (nextTimer s2),
            timers := timers s2 @ [(nextTimer s2, now + 2000)],
            nextTimer := Suc (nextTimer s2)\<rparr>)"

definition observe :: "nat \<Rightarrow> nat \<Rightarrow> yevent \<Rightarrow> observer \<Rightarrow> observer" where
  "observe now done ev s =
     (if transaction_local ev then s
      else case begin_pools now ev s of (ps, s1) \<Rightarrow> finish_pools done ev ps s1)"

definition pool_key :: "pool \<Rightarrow> ident \<times> action" where
  "pool_key p = (fst p, fst (snd p))"

fun take_pending ::
  "(ident \<times> action) list \<Rightarrow> pool list list \<Rightarrow> (pool list \<times> pool list list) option" where
  "take_pending ks [] = None"
| "take_pending ks (ps # rest) =
     (if map pool_key ps = ks then Some (ps, rest)
      else case take_pending ks rest of
             None \<Rightarrow> None
           | Some (q, r) \<Rightarrow> Some (q, ps # r))"

definition observe_begin :: "nat \<Rightarrow> yevent \<Rightarrow> observer \<Rightarrow> observer" where
  "observe_begin now ev s =
     (case begin_pools now ev s of (ps, s1) \<Rightarrow> s1\<lparr>pending := pending s1 @ [ps]\<rparr>)"

definition observe_finish :: "nat \<Rightarrow> yevent \<Rightarrow> observer \<Rightarrow> observer" where
  "observe_finish now ev s =
     (case take_pending (keys ev) (pending s) of
        None \<Rightarrow> s
      | Some (ps, rest) \<Rightarrow> finish_pools now ev ps (s\<lparr>pending := rest\<rparr>))"

text \<open>
  The event loop: \<open>fire\<close> runs the timers due at a time, in the order of their times (each
  emits \<open>synced\<close>), \<open>settle\<close> lets every pending timer run, and \<open>run\<close> walks a schedule of
  arrivals of events and resumptions of their callbacks, given in the order of time;
  timers due are run before the task of that time.
\<close>

definition fire :: "nat \<Rightarrow> observer \<Rightarrow> observer" where
  "fire now s =
     s\<lparr>timers := filter (\<lambda>(i, t). \<not> t \<le> now) (timers s),
       statusLog := statusLog s
         @ map (\<lambda>(i, t). (t, Synced)) (sort_key snd (filter (\<lambda>(i, t). t \<le> now) (timers s)))\<rparr>"

definition settle :: "observer \<Rightarrow> observer" where
  "settle s =
     s\<lparr>timers := [],
       statusLog := statusLog s @ map (\<lambda>(i, t). (t, Synced)) (sort_key snd (timers s))\<rparr>"

datatype task = Arrive yevent | Resume yevent

fun run :: "(nat \<times> task) list \<Rightarrow> observer \<Rightarrow> observer" where
  "run [] s = s"
| "run ((now, Arrive ev) # rest) s =
     run rest (if transaction_local ev then fire now s else observe_begin now ev (fire now s))"
| "run ((now, Resume ev) # rest) s =
     run rest (if transaction_local ev then fire now s else observe_finish now ev (fire now s))"

text \<open>
  A schedule where no two callbacks overlap: each event \<open>(a, c, ev)\<close> arrives at \<open>a\<close> and its
  callback resumes at \<open>c\<close>. \<open>spaced lo hi\<close> says that every event is remote, arrives no
  earlier than the previous one finished (\<open>lo\<close>) and less than 2000 ms after the previous
  one arrived (\<open>hi\<close>), and finishes no earlier than it arrives.
\<close>

definition sequential :: "(nat \<times> nat \<times> yevent) list \<Rightarrow> (nat \<times> task) list" where
  "sequential evs = concat (map (\<lambda>(a, c, ev). [(a, Arrive ev), (c, Resume ev)]) evs)"

fun spaced :: "nat \<Rightarrow> nat \<Rightarrow> (nat \<times> nat \<times> yevent) list \<Rightarrow> bool" where
  "spaced lo hi [] = True"
| "spaced lo hi ((a, c, ev) # rest) =
     (\<not> transaction_local ev \<and> lo \<le> a \<and> a < hi \<and> a \<le> c \<and> spaced c (a + 2000) rest)"

definition one_pending :: "nat \<Rightarrow> observer \<Rightarrow> bool" where
  "one_pending hi s =
     (pending s = [] \<and>
      (timers s = [] \<or>
       (\<exists>tid t. timers s = [(tid, t)] \<and> debounceTimer s = Some tid \<and> hi \<le> t)))"

subsection \<open>Sample inputs\<close>

definition production :: env where
  "production = \<lparr>hasWindow = True, NODE_ENV = ''production''\<rparr>"

definition server :: env where
  "server = \<lparr>hasWindow = False, NODE_ENV = ''production''\<rparr>"

definition params_a :: params where
  "params_a = \<lparr>channel = \<lparr>name = ''a'', password = ''x''\<rparr>, signaling = None, user = ''u''\<rparr>"

definition params_b :: params where
  "params_b = \<lparr>channel = \<lparr>name = ''b'', password = ''y''\<rparr>, signaling = None, user = ''u''\<rparr>"

text \<open>
  Records, the state after a first \<open>startDataSync\<close> in a browser (document 0, provider 1),
  that state with a record of a peer in the sessions map, and a store where only the
  read of the topics table succeeds.
\<close>

definition item_1 :: item where "item_1 = \<lparr>item_id = ''1'', item_data = ''one''\<rparr>"
definition item_2 :: item where "item_2 = \<lparr>item_id = ''2'', item_data = ''two''\<rparr>"
definition item_r :: item where "item_r = \<lparr>item_id = ''r'', item_data = ''remote''\<rparr>"

definition session_state :: data_sync where
  "session_state = snd (startDataSync production params_a init_state)"

definition peer_state :: data_sync where
  "peer_state = session_state\<lparr>docs := (docs session_state)
       (0 := empty_doc\<lparr>ymaps := (ymaps empty_doc)(Sessions := [''r'' \<mapsto> item_r])\<rparr>)\<rparr>"

definition broken_db :: "tableKey \<Rightarrow> error + item list" where
  "broken_db k = (if k = Topics then Inr [item_1, item_2] else Inl StoreError)"

text \<open>An observer that has seen nothing yet, and a remote and a local change event.\<close>

definition init_observer :: observer where
  "init_observer = \<lparr>rows = Map.empty, calls = [], pending = [], debounceTimer = None, timers = [],
     nextTimer = 0, statusLog = [], syncEvents = []\<rparr>"

definition remote_event :: yevent where
  "remote_event = \<lparr>transaction_local = False, keys = [(''1'', Add)], yItemMap = [''1'' \<mapsto> item_1]\<rparr>"

definition local_event :: yevent where
  "local_event = \<lparr>transaction_local = True, keys = [(''1'', Add)], yItemMap = [''1'' \<mapsto> item_1]\<rparr>"

section \<open>Properties of the connection manager\<close>

lemma never_two_append:
  "never_two P D (xs @ ys) =
     (never_two P D xs \<and> never_two (fold liveProv xs P) (fold liveDoc xs D) ys)"
  by (induction xs arbitrary: P D) (cases ys; auto)+

lemma trace_emit [simp]: "trace (emit es s) = trace s @ es"
  by (simp add: emit_def)

lemma clean_fields [simp]:
  "ydoc (cleanConnection pv s) = ydoc s" "provider (cleanConnection pv s) = provider s"
  "devSlot (cleanConnection pv s) = devSlot s" "syncParams (cleanConnection pv s) = syncParams s"
  "nextRef (cleanConnection pv s) = nextRef s" "rooms (cleanConnection pv s) = rooms s"
  "onAwarenessChange (cleanConnection pv s) = onAwarenessChange s"
  by (simp_all add: cleanConnection_def emit_def split: option.splits)

lemma initYjsObserve_eq:
  "initYjsObserve s =
     (case ydoc s of
        None \<Rightarrow> s
      | Some d \<Rightarrow> emit [Observe Sessions d, Observe SessionGroups d, Observe Topics d,
                        Observe Messages d, Observe Plugins d] s)"
  by (cases "ydoc s") (simp_all add: initYjsObserve_def observeYMapChange_def tableKeys_def emit_def)

lemmas run_defs = run_calls_def perform_def startDataSync_def reconnect_def manualSync_def
  connect_def connect_provider_def initYDoc_def initYjsObserve_eq initAwareness_def
  cleanConnection_def releases_def emit_def init_state_def Let_def

lemma connect_keeps_syncParams [simp]:
  "syncParams (snd (connect e ps s)) = syncParams s"
  by (simp add: connect_def connect_provider_def initYDoc_def initYjsObserve_eq
      initAwareness_def Let_def emit_def split: option.splits)

subsection \<open>One session at a time\<close>

text \<open>With a window, \<open>connect\<close> from a state where nothing is live leaves one pair live.\<close>

lemma connect_from_clear:
  assumes w: "hasWindow e"
    and nt: "never_two [] [] (trace s)"
    and clr: "live_providers s = []" "live_docs s = []"
    and slot: "NODE_ENV e \<noteq> ''development'' \<Longrightarrow> devSlot s = None"
  shows "session_inv e (snd (connect e ps s)) \<and> never_two [] [] (trace (snd (connect e ps s)))"
  using assms
  by (auto simp: session_inv_def connect_def connect_provider_def initYDoc_def initYjsObserve_def
      observeYMapChange_def tableKeys_def initAwareness_def Let_def never_two_append
      live_providers_def live_docs_def emit_def)

text \<open>Without a window \<open>connect\<close> constructs nothing: there is no document to construct on.\<close>

lemma connect_no_window:
  assumes "\<not> hasWindow e" and "ydoc s = None"
  shows "connect e ps s = (Threw TypeError, s)"
  using assms by (simp add: connect_def connect_provider_def initYDoc_def initYjsObserve_eq)

lemma perform_no_window:
  assumes "\<not> hasWindow e" and "ydoc s = None" and "provider s = None"
  shows "\<exists>sp oa. snd (perform e c s) = s\<lparr>syncParams := sp, onAwarenessChange := oa\<rparr>"
proof (cases c)
  case (StartDataSync ps)
  then show ?thesis using assms(1) by (auto simp: perform_def startDataSync_def Let_def)
next
  case (Reconnect ps)
  have "snd (perform e c s) = s"
    using assms by (simp add: Reconnect perform_def reconnect_def cleanConnection_def connect_no_window)
  then have "snd (perform e c s) = s\<lparr>syncParams := syncParams s, onAwarenessChange := onAwarenessChange s\<rparr>"
    by simp
  then show ?thesis by blast
next
  case ManualSync
  have "snd (perform e c s) = s"
    using assms
    by (cases "syncParams s")
       (simp_all add: ManualSync perform_def manualSync_def reconnect_def cleanConnection_def
          connect_no_window)
  then have "snd (perform e c s) = s\<lparr>syncParams := syncParams s, onAwarenessChange := onAwarenessChange s\<rparr>"
    by simp
  then show ?thesis by blast
qed

lemma clean_clears:
  assumes "session_inv e s" "never_two [] [] (trace s)"
  shows "live_providers (cleanConnection (provider s) s) = [] \<and>
         live_docs (cleanConnection (provider s) s) = [] \<and>
         never_two [] [] (trace (cleanConnection (provider s) s))"
  using assms
  by (auto simp: session_inv_def cleanConnection_def releases_def never_two_append
      live_providers_def live_docs_def split: option.splits)

lemma perform_keeps_session_window:
  assumes w: "hasWindow e"
    and inv: "session_inv e s" "never_two [] [] (trace s)"
    and ok: "NODE_ENV e = ''development'' \<or> \<not> is_start c \<or> live_providers s = []"
  shows "session_inv e (snd (perform e c s)) \<and> never_two [] [] (trace (snd (perform e c s)))"
proof (cases c)
  case (Reconnect ps)
  have "session_inv e (snd (connect e ps (cleanConnection (provider s) s))) \<and>
        never_two [] [] (trace (snd (connect e ps (cleanConnection (provider s) s))))"
    using clean_clears [OF inv] inv(1) w
    by (intro connect_from_clear) (auto simp: session_inv_def)
  then show ?thesis by (simp add: Reconnect perform_def reconnect_def)
next
  case ManualSync
  show ?thesis
  proof (cases "syncParams s")
    case None
    have "session_inv e (cleanConnection (provider s) s)"
      using clean_clears [OF inv] inv(1) by (auto simp: session_inv_def)
    then show ?thesis
      using clean_clears [OF inv] by (simp add: ManualSync perform_def manualSync_def None)
  next
    case (Some ps)
    have "session_inv e (snd (connect e ps (cleanConnection (provider s) s))) \<and>
        never_two [] [] (trace (snd (connect e ps (cleanConnection (provider s) s))))"
      using clean_clears [OF inv] inv(1) w
      by (intro connect_from_clear) (auto simp: session_inv_def)
    then show ?thesis by (simp add: ManualSync perform_def manualSync_def Some reconnect_def)
  qed
next
  case (StartDataSync ps)
  let ?s1 = "s\<lparr>syncParams := Some ps, onAwarenessChange := True\<rparr>"
  have inv1: "session_inv e ?s1" "never_two [] [] (trace ?s1)"
    using inv by (simp_all add: session_inv_def live_providers_def live_docs_def)
  show ?thesis
  proof (cases "NODE_ENV e = ''development''")
    case True
    then have slot: "devSlot ?s1 = provider ?s1" using inv1(1) by (simp add: session_inv_def)
    have "session_inv e (snd (connect e ps (cleanConnection (provider ?s1) ?s1))) \<and>
        never_two [] [] (trace (snd (connect e ps (cleanConnection (provider ?s1) ?s1))))"
      using clean_clears [OF inv1] inv1(1) w True
      by (intro connect_from_clear) (auto simp: session_inv_def)
    then show ?thesis
      using w slot by (simp add: StartDataSync perform_def startDataSync_def Let_def)
  next
    case False
    then have slot: "devSlot ?s1 = None" using inv1(1) by (simp add: session_inv_def)
    from False ok StartDataSync have clr: "live_providers s = []" by simp
    then have "live_docs s = []" using inv(1) by (auto simp: session_inv_def)
    with clr have "session_inv e (snd (connect e ps ?s1)) \<and>
        never_two [] [] (trace (snd (connect e ps ?s1)))"
      using inv1 w slot
      by (intro connect_from_clear) (auto simp: live_providers_def live_docs_def)
    then show ?thesis
      using w slot by (simp add: StartDataSync perform_def startDataSync_def Let_def cleanConnection_def)
  qed
qed

lemma perform_keeps_session:
  assumes inv: "session_inv e s" "never_two [] [] (trace s)"
    and ok: "NODE_ENV e = ''development'' \<or> \<not> is_start c \<or> live_providers s = []"
  shows "session_inv e (snd (perform e c s)) \<and> never_two [] [] (trace (snd (perform e c s)))"
proof (cases "hasWindow e")
  case True
  then show ?thesis using inv ok by (rule perform_keeps_session_window)
next
  case False
  then have n: "ydoc s = None" "provider s = None" using inv(1) by (simp_all add: session_inv_def)
  obtain sp oa where "snd (perform e c s) = s\<lparr>syncParams := sp, onAwarenessChange := oa\<rparr>"
    using perform_no_window [OF False n] by blast
  then show ?thesis
    using inv by (simp add: session_inv_def live_providers_def live_docs_def)
qed

lemma run_calls_keeps_session:
  assumes ok: "NODE_ENV e = ''development'' \<or> starts_clear e cs s"
    and inv: "session_inv e s" "never_two [] [] (trace s)"
  shows "session_inv e (run_calls e cs s) \<and> never_two [] [] (trace (run_calls e cs s))"
  using ok inv
proof (induction cs arbitrary: s)
  case Nil
  then show ?case by (simp add: run_calls_def)
next
  case (Cons c cs)
  have step: "session_inv e (snd (perform e c s)) \<and> never_two [] [] (trace (snd (perform e c s)))"
    using Cons.prems by (intro perform_keeps_session) auto
  have "session_inv e (run_calls e cs (snd (perform e c s))) \<and>
        never_two [] [] (trace (run_calls e cs (snd (perform e c s))))"
    using Cons.prems(1) step by (intro Cons.IH) auto
  then show ?case by (simp add: run_calls_def)
qed

lemma init_session: "session_inv e init_state \<and> never_two [] [] (trace init_state)"
  by (simp add: session_inv_def init_state_def live_providers_def live_docs_def)

lemma steps_reconnect: "fold (do_step e) (reconnect_steps ps) s = snd (reconnect e ps s)"
  by (simp add: reconnect_steps_def do_step_def reconnect_def connect_def)

text \<open>
  In a browser outside development the condition is also needed: a run that never has two
  providers or two documents live has no provider live at any \<open>startDataSync\<close> call.
\<close>

lemma never_two_prefix: "never_two P D (xs @ ys) \<Longrightarrow> never_two P D xs"
  by (simp add: never_two_append)

lemma perform_trace_grows: "\<exists>zs. trace (snd (perform e c s)) = trace s @ zs"
  by (cases c; cases "hasWindow e"; cases "syncParams s"; cases "provider s"; cases "devSlot s";
      cases "ydoc s")
     (simp_all add: perform_def startDataSync_def reconnect_def manualSync_def connect_def
      connect_provider_def initYDoc_def initYjsObserve_eq initAwareness_def cleanConnection_def
      emit_def Let_def)

lemma run_calls_trace_grows: "\<exists>zs. trace (run_calls e cs s) = trace s @ zs"
proof (induction cs arbitrary: s)
  case Nil
  then show ?case by (simp add: run_calls_def)
next
  case (Cons c cs)
  obtain zs where 1: "trace (snd (perform e c s)) = trace s @ zs"
    using perform_trace_grows by blast
  obtain ws where 2: "trace (run_calls e cs (snd (perform e c s))) = trace (snd (perform e c s)) @ ws"
    using Cons.IH by blast
  have "run_calls e (c # cs) s = run_calls e cs (snd (perform e c s))" by (simp add: run_calls_def)
  then show ?case using 1 2 by simp
qed

lemma start_on_live_leaks:
  assumes w: "hasWindow e" and nd: "NODE_ENV e \<noteq> ''development''"
    and inv: "session_inv e s" and live: "live_providers s \<noteq> []"
  shows "\<not> never_two [] [] (trace (snd (startDataSync e ps s)))"
  using assms
  by (auto simp: session_inv_def startDataSync_def cleanConnection_def connect_def
      connect_provider_def initYDoc_def initYjsObserve_eq initAwareness_def Let_def
      never_two_append live_providers_def live_docs_def emit_def)

lemma starts_clear_needed:
  assumes w: "hasWindow e" and nd: "NODE_ENV e \<noteq> ''development''"
    and inv: "session_inv e s" and nt: "never_two [] [] (trace (run_calls e cs s))"
  shows "starts_clear e cs s"
  using inv nt
proof (induction cs arbitrary: s)
  case Nil
  then show ?case by simp
next
  case (Cons c cs)
  let ?s1 = "snd (perform e c s)"
  have run: "run_calls e (c # cs) s = run_calls e cs ?s1" by (simp add: run_calls_def)
  obtain ws where "trace (run_calls e cs ?s1) = trace ?s1 @ ws"
    using run_calls_trace_grows by blast
  then have nt1: "never_two [] [] (trace ?s1)"
    using Cons.prems(2) run never_two_prefix by metis
  obtain zs where "trace ?s1 = trace s @ zs" using perform_trace_grows by blast
  then have nt0: "never_two [] [] (trace s)" using nt1 never_two_prefix by metis
  have clear: "is_start c \<longrightarrow> live_providers s = []"
  proof (cases c)
    case (StartDataSync ps)
    then show ?thesis
      using start_on_live_leaks [OF w nd Cons.prems(1), of ps] nt1
      by (auto simp: perform_def)
  qed simp_all
  then have "session_inv e ?s1"
    using perform_keeps_session [OF Cons.prems(1) nt0, of c] by blast
  then have "starts_clear e cs ?s1"
    using nt1 Cons.prems(2) run by (intro Cons.IH) simp_all
  then show ?case using clear by simp
qed

text \<open>
  C1, as amended. For every sequence of \<open>startDataSync\<close>, \<open>reconnect\<close> and \<open>manualSync\<close> calls
  run one after the other from the fresh instance, in development, or in any other
  environment provided no provider is live at the moment of any \<open>startDataSync\<close> call: at
  every moment of the run at most one provider and at most one document are live, so each
  new pair is constructed after the previous one was destroyed.
\<close>

theorem single_session_sequential:
  assumes "NODE_ENV e = ''development'' \<or> starts_clear e cs init_state"
  shows "never_two [] [] (trace (run_calls e cs init_state))"
  using run_calls_keeps_session [OF assms] init_session [of e] by blast

theorem single_session_witness:
  "never_two [] [] (trace (run_calls production
      [Reconnect params_a, ManualSync, StartDataSync params_a, Reconnect params_b, ManualSync]
      init_state))"
proof (rule single_session_sequential)
  have "starts_clear production
      [Reconnect params_a, ManualSync, StartDataSync params_a, Reconnect params_b, ManualSync]
      init_state"
    by (simp add: run_defs live_providers_def production_def)
  then show "NODE_ENV production = ''development'' \<or> starts_clear production
      [Reconnect params_a, ManualSync, StartDataSync params_a, Reconnect params_b, ManualSync]
      init_state"
    by blast
qed

text \<open>
  C1 as stated fails. Outside development \<open>startDataSync\<close> tears nothing down (the slot it
  cleans is written in development only), so a \<open>startDataSync\<close> after a \<open>startDataSync\<close> or
  after a \<open>reconnect\<close> leaves two providers live. And two \<open>reconnect\<close> calls that overlap
  (both teardowns run before either provider is constructed) leave two providers live,
  the first of them no longer reachable.
\<close>

theorem single_session_counterexample:
  "\<not> never_two [] [] (trace (run_calls production
        [StartDataSync params_a, StartDataSync params_a] init_state)) \<and>
   \<not> never_two [] [] (trace (run_calls production
        [Reconnect params_a, StartDataSync params_a] init_state)) \<and>
   [CleanStep, CleanStep, InitYDocStep, InitYDocStep, ObserveStep, ObserveStep,
      ProviderStep params_a, ProviderStep params_b]
     \<in> shuffles (reconnect_steps params_a) (reconnect_steps params_b) \<and>
   \<not> never_two [] [] (trace (fold (do_step production)
        [CleanStep, CleanStep, InitYDocStep, InitYDocStep, ObserveStep, ObserveStep,
         ProviderStep params_a, ProviderStep params_b] init_state))"
  apply (intro conjI)
     apply (simp add: run_defs production_def params_a_def)
    apply (simp add: run_defs production_def params_a_def)
   apply (simp add: reconnect_steps_def Cons_in_shuffles_iff)
  apply (simp add: do_step_def run_defs production_def params_a_def params_b_def)
  done

subsection \<open>Teardown\<close>

text \<open>
  C6, as amended. \<open>cleanConnection\<close> with a provider calls, in this order: the awareness
  \<open>destroy\<close>; the room's \<open>disconnect\<close> and \<open>destroy\<close> when the provider has a room; the
  provider's \<open>disconnect\<close> and \<open>destroy\<close>; the document's \<open>destroy\<close> when the instance holds
  a document; and it changes nothing else. With \<open>null\<close> it does nothing. Called a second
  time with the same provider it makes the same release calls again.
\<close>

theorem cleanConnection_order:
  "trace (cleanConnection (Some p) s) =
     trace s @ [AwarenessDestroy p]
       @ (if p \<in> set (rooms s) then [RoomDisconnect p, RoomDestroy p] else [])
       @ [ProviderDisconnect p, ProviderDestroy p]
       @ (case ydoc s of None \<Rightarrow> [] | Some d \<Rightarrow> [DocDestroy d]) \<and>
   (cleanConnection (Some p) s)\<lparr>trace := trace s\<rparr> = s \<and>
   cleanConnection None s = s \<and>
   trace (cleanConnection (Some p) (cleanConnection (Some p) s)) =
     trace (cleanConnection (Some p) s) @ releases p s"
  by (simp add: cleanConnection_def releases_def emit_def)

text \<open>
  C6 as stated fails for the second of two calls in a row: after \<open>startDataSync\<close> the
  provider is reference 1 on document 0, and the second teardown of it releases again.
\<close>

theorem cleanConnection_twice_counterexample:
  "trace (cleanConnection (Some 1) (cleanConnection (Some 1)
       (snd (startDataSync production params_a init_state)))) =
   trace (cleanConnection (Some 1) (snd (startDataSync production params_a init_state)))
     @ [AwarenessDestroy 1, ProviderDisconnect 1, ProviderDestroy 1, DocDestroy 0] \<and>
   provider (snd (startDataSync production params_a init_state)) = Some 1"
  by (simp add: run_defs production_def params_a_def)

subsection \<open>The stored parameters\<close>

lemma perform_syncParams:
  "syncParams (snd (perform e c s)) =
     (case c of StartDataSync ps \<Rightarrow> Some ps | Reconnect ps \<Rightarrow> syncParams s | ManualSync \<Rightarrow> syncParams s)"
  by (cases c; cases "hasWindow e"; cases "syncParams s")
     (simp_all add: perform_def startDataSync_def reconnect_def manualSync_def Let_def)

text \<open>Only \<open>startDataSync\<close> stores parameters: after any calls the field holds those of the
  most recent \<open>startDataSync\<close>, whatever \<open>reconnect\<close> was given since.\<close>

lemma run_calls_syncParams: "syncParams (run_calls e cs init_state) = last_start cs"
proof -
  have "syncParams (run_calls e cs s) =
     fold (\<lambda>c a. case c of StartDataSync ps \<Rightarrow> Some ps | Reconnect ps \<Rightarrow> a | ManualSync \<Rightarrow> a)
       cs (syncParams s)" for s
  proof (induction cs arbitrary: s)
    case Nil
    then show ?case by (simp add: run_calls_def)
  next
    case (Cons c cs)
    have "run_calls e (c # cs) s = run_calls e cs (snd (perform e c s))"
      by (simp add: run_calls_def)
    then show ?case
      by (simp add: Cons.IH perform_syncParams split: call.splits)
  qed
  then show ?thesis by (simp add: last_start_def init_state_def)
qed

text \<open>
  C9 fails on the code. After \<open>startDataSync\<close> on channel \<open>a\<close> and \<open>reconnect\<close> on channel \<open>b\<close>,
  the parameters last used are those of channel \<open>b\<close>, and provider 3 on document 2 is
  connected to \<open>b\<close>. \<open>manualSync\<close> tears that pair down and constructs provider 5 on channel
  \<open>a\<close> again: \<open>reconnect\<close> did not store its parameters, as \<open>startDataSync\<close> does.
\<close>

theorem manualSync_stale_params:
  "spec_last_used [StartDataSync params_a, Reconnect params_b] = Some params_b \<and>
   fst (manualSync production
         (run_calls production [StartDataSync params_a, Reconnect params_b] init_state))
     = Returned 5 \<and>
   trace (snd (manualSync production
         (run_calls production [StartDataSync params_a, Reconnect params_b] init_state)))
     = trace (run_calls production [StartDataSync params_a, Reconnect params_b] init_state)
       @ [AwarenessDestroy 3, ProviderDisconnect 3, ProviderDestroy 3, DocDestroy 2,
          NewDoc 4, Observe Sessions 4, Observe SessionGroups 4, Observe Topics 4,
          Observe Messages 4, Observe Plugins 4,
          NewProvider 5 ''a'' 4 ''x'' default_signaling, OnStatus 5, OnSynced 5,
          SetLocalState 5 ''u'', AwarenessChange 5 ''u'', OnAwarenessChange 5] \<and>
   trace (snd (reconnect production params_b
         (run_calls production [StartDataSync params_a, Reconnect params_b] init_state)))
     = trace (run_calls production [StartDataSync params_a, Reconnect params_b] init_state)
       @ [AwarenessDestroy 3, ProviderDisconnect 3, ProviderDestroy 3, DocDestroy 2,
          NewDoc 4, Observe Sessions 4, Observe SessionGroups 4, Observe Topics 4,
          Observe Messages 4, Observe Plugins 4,
          NewProvider 5 ''b'' 4 ''y'' default_signaling, OnStatus 5, OnSynced 5,
          SetLocalState 5 ''u'', AwarenessChange 5 ''u'', OnAwarenessChange 5]"
  by (simp add: spec_last_used_def run_defs production_def params_a_def params_b_def)

subsection \<open>The service wrapper\<close>

text \<open>
  After a \<open>startDataSync\<close> on channel \<open>a\<close> the service's \<open>reconnect\<close> on channel \<open>b\<close> returns
  true after two cycles, each a teardown of the live pair and a new pair: the first on
  \<open>b\<close>, the second, through \<open>manualSync\<close>, back on \<open>a\<close>.
\<close>

lemma service_reconnect_after_start:
  "fst (service_reconnect production params_b (snd (startDataSync production params_a init_state)))
     = Returned True \<and>
   trace (snd (service_reconnect production params_b
       (snd (startDataSync production params_a init_state))))
     = trace (snd (startDataSync production params_a init_state))
       @ [AwarenessDestroy 1, ProviderDisconnect 1, ProviderDestroy 1, DocDestroy 0,
          NewDoc 2, Observe Sessions 2, Observe SessionGroups 2, Observe Topics 2,
          Observe Messages 2, Observe Plugins 2,
          NewProvider 3 ''b'' 2 ''y'' default_signaling, OnStatus 3, OnSynced 3,
          SetLocalState 3 ''u'', AwarenessChange 3 ''u'', OnAwarenessChange 3,
          AwarenessDestroy 3, ProviderDisconnect 3, ProviderDestroy 3, DocDestroy 2,
          NewDoc 4, Observe Sessions 4, Observe SessionGroups 4, Observe Topics 4,
          Observe Messages 4, Observe Plugins 4,
          NewProvider 5 ''a'' 4 ''x'' default_signaling, OnStatus 5, OnSynced 5,
          SetLocalState 5 ''u'', AwarenessChange 5 ''u'', OnAwarenessChange 5]"
  by (simp add: service_reconnect_def run_defs production_def params_a_def params_b_def)

text \<open>
  C10 fails on the code. On the fresh instance, in a browser, the service's \<open>reconnect\<close>
  runs one cycle (document 0, provider 1 on the channel given); then \<open>manualSync\<close> finds no
  stored parameters, since \<open>reconnect\<close> stored none: it tears the new pair down and throws
  a \<open>TypeError\<close>. The call does not return true and leaves no provider live.
\<close>

theorem service_reconnect_fresh:
  "fst (service_reconnect production params_b init_state) = Threw TypeError \<and>
   trace (snd (service_reconnect production params_b init_state))
     = [NewDoc 0, Observe Sessions 0, Observe SessionGroups 0, Observe Topics 0,
        Observe Messages 0, Observe Plugins 0,
        NewProvider 1 ''b'' 0 ''y'' default_signaling, OnStatus 1, OnSynced 1,
        SetLocalState 1 ''u'', OnAwarenessChange 1,
        AwarenessDestroy 1, ProviderDisconnect 1, ProviderDestroy 1, DocDestroy 0] \<and>
   live_providers (snd (service_reconnect production params_b init_state)) = []"
  by (simp add: service_reconnect_def run_defs production_def params_b_def live_providers_def)

text \<open>
  C8, as amended. Without a window the service's \<open>enabledSync\<close> and \<open>reconnect\<close> return
  false and leave the sync core untouched, \<open>initYDoc\<close> leaves the document handle as it
  is, and while the handle is null \<open>transact\<close> and \<open>getYMap\<close> do nothing.
\<close>

theorem no_window_noop:
  assumes "\<not> hasWindow e"
  shows "enabledSync e ps s = (Returned False, s) \<and>
         service_reconnect e ps s = (Returned False, s) \<and>
         initYDoc e s = s \<and>
         (ydoc s = None \<longrightarrow> transact k xs s = s \<and> getYMap k s = None)"
  using assms
  by (simp add: enabledSync_def service_reconnect_def initYDoc_def transact_def getYMap_def)

theorem no_window_witness:
  "enabledSync server params_a init_state = (Returned False, init_state) \<and>
   service_reconnect server params_a init_state = (Returned False, init_state) \<and>
   initYDoc server init_state = init_state \<and>
   transact Sessions [] init_state = init_state \<and> getYMap Sessions init_state = None"
proof -
  have h: "\<not> hasWindow server" by (simp add: server_def)
  have d: "ydoc init_state = None" by (simp add: init_state_def)
  show ?thesis using no_window_noop [OF h, of params_a init_state Sessions "[]"] d by simp
qed

text \<open>
  C8 as stated fails for \<open>startDataSync\<close> of the sync core: without a window its read of
  the development slot throws.
\<close>

theorem no_window_counterexample:
  "fst (startDataSync server params_a init_state) = Threw ReferenceError"
  by (simp add: startDataSync_def server_def Let_def)

section \<open>Properties of the bootstrap load\<close>

lemma div50_bounds: "(n::nat) \<le> (n + 49) div 50 * 50" "(n + 49) div 50 * 50 < n + 50"
proof -
  have m: "(n + 49) mod 50 < 50" by simp
  have d: "(n + 49) div 50 * 50 + (n + 49) mod 50 = n + 49" by (rule div_mult_mod_eq)
  show "n \<le> (n + 49) div 50 * 50" using m d by linarith
  show "(n + 49) div 50 * 50 < n + 50" using m d by linarith
qed

lemma totalBatches_div: "totalBatches n = (n + 49) div 50"
proof -
  define q where "q = (n + 49) div 50"
  have a: "n \<le> q * 50" unfolding q_def by (rule div50_bounds)
  have b: "q * 50 < n + 50" unfolding q_def by (rule div50_bounds)
  have "real n \<le> real (q * 50)" by (rule of_nat_mono) (rule a)
  then have ra: "real n \<le> real q * 50" by simp
  have "real (q * 50) < real (n + 50)" using b by (simp only: of_nat_less_iff)
  then have rb: "real q * 50 < real n + 50" by simp
  have "\<lceil>real n / 50\<rceil> = int q"
  proof (rule ceiling_unique)
    from rb have "(real q - 1) * 50 < real n" by (simp add: algebra_simps)
    then have "real q - 1 < real n / 50" by (simp add: pos_less_divide_eq)
    then show "of_int (int q) - 1 < real n / 50" by simp
    from ra have "real n / 50 \<le> real q" by (simp add: pos_divide_le_eq)
    then show "real n / 50 \<le> of_int (int q)" by simp
  qed
  then show ?thesis by (simp add: totalBatches_def batchSize_def q_def)
qed

lemma transact_fold:
  "fold (transact k) bs s =
     (case ydoc s of
        None \<Rightarrow> s
      | Some d \<Rightarrow>
          s\<lparr>docs := (docs s)(d :=
               (docs s d)\<lparr>ymaps := (ymaps (docs s d))(k := fold set_items bs (ymaps (docs s d) k)),
                          transactions := transactions (docs s d) @ map (Pair k) bs\<rparr>)\<rparr>)"
proof (induction bs arbitrary: s)
  case Nil
  show ?case by (cases "ydoc s") simp_all
next
  case (Cons b bs)
  show ?case
    by (cases "ydoc s") (simp_all add: Cons.IH, simp_all add: transact_def)
qed

lemma loadBatches_fold:
  "loadBatches k items tot i s =
     fold (transact k)
       (map (\<lambda>j. slice (j * batchSize) (j * batchSize + batchSize) items) [i..<tot]) s"
proof (induction k items tot i s rule: loadBatches.induct)
  case (1 k items tot i s)
  show ?case
  proof (cases "i < tot")
    case True
    then have "[i..<tot] = i # [Suc i..<tot]" by (simp add: upt_conv_Cons)
    then show ?thesis
      using "1" [OF True] True by (subst loadBatches.simps) simp
  next
    case False
    then show ?thesis by (subst loadBatches.simps) simp
  qed
qed

lemma fold_set_items: "fold set_items bs m = set_items (concat bs) m"
  by (induction bs arbitrary: m) (simp_all add: set_items_def)

lemma concat_slices:
  "length xs \<le> n * c \<Longrightarrow> concat (map (\<lambda>j. slice (j * c) (j * c + c) xs) [0..<n]) = xs"
proof (induction n arbitrary: xs)
  case 0
  then show ?case by simp
next
  case (Suc n)
  have same: "slice (j * c) (j * c + c) (take (n * c) xs) = slice (j * c) (j * c + c) xs"
    if "j \<in> set [0..<n]" for j
  proof -
    from that have "Suc j \<le> n" by simp
    then have "Suc j * c \<le> n * c" by (rule mult_le_mono1)
    then have "j * c + c \<le> n * c" by (simp add: add.commute)
    then show ?thesis by (simp add: slice_def drop_take min_def)
  qed
  have "concat (map (\<lambda>j. slice (j * c) (j * c + c) (take (n * c) xs)) [0..<n]) = take (n * c) xs"
    by (rule Suc.IH) simp
  moreover have "map (\<lambda>j. slice (j * c) (j * c + c) (take (n * c) xs)) [0..<n] =
                 map (\<lambda>j. slice (j * c) (j * c + c) xs) [0..<n]"
    by (rule map_cong [OF refl]) (rule same)
  ultimately have "concat (map (\<lambda>j. slice (j * c) (j * c + c) xs) [0..<n]) = take (n * c) xs"
    by simp
  moreover have "slice (n * c) (n * c + c) xs = drop (n * c) xs"
    using Suc.prems by (simp add: slice_def)
  ultimately show ?case by simp
qed

lemma totalBatches_covers: "n \<le> totalBatches n * batchSize"
  using div50_bounds(1) [of n] by (simp add: totalBatches_div batchSize_def)

lemma concat_batches: "concat (batches items) = items"
  unfolding batches_def by (rule concat_slices) (rule totalBatches_covers)

lemma length_batches: "length (batches items) = (length items + 49) div 50"
  by (simp add: batches_def totalBatches_div)

lemma batch_length:
  assumes "j < totalBatches n" and "length items = n"
  shows "length (slice (j * batchSize) (j * batchSize + batchSize) items) =
           (if Suc j < totalBatches n then 50 else n - j * 50)"
proof -
  define q where "q = (n + 49) div 50"
  have a: "n \<le> q * 50" and b: "q * 50 < n + 50"
    unfolding q_def by (rule div50_bounds)+
  have len: "length (slice (j * batchSize) (j * batchSize + batchSize) items) = min 50 (n - j * 50)"
    using assms(2) by (simp add: slice_def batchSize_def min.commute)
  show ?thesis
  proof (cases "Suc j < totalBatches n")
    case True
    then have "Suc (Suc j) \<le> q" by (simp add: totalBatches_div q_def)
    then have "Suc (Suc j) * 50 \<le> q * 50" by (rule mult_le_mono1)
    then have "50 \<le> n - j * 50" using b by simp
    then show ?thesis using True len by simp
  next
    case False
    then have "q \<le> Suc j" by (simp add: totalBatches_div q_def)
    then have "q * 50 \<le> Suc j * 50" by (rule mult_le_mono1)
    then have "n - j * 50 \<le> 50" using a by simp
    then show ?thesis using False len by simp
  qed
qed


lemma load_closed:
  "snd (loadDataFromDBtoYjs db k s) =
     (case db k of
        Inl x \<Rightarrow> s
      | Inr items \<Rightarrow>
          (case ydoc s of
             None \<Rightarrow> s
           | Some d \<Rightarrow>
               s\<lparr>docs := (docs s)(d :=
                    (docs s d)\<lparr>ymaps := (ymaps (docs s d))(k := set_items items (ymaps (docs s d) k)),
                               transactions := transactions (docs s d) @ map (Pair k) (batches items)\<rparr>)\<rparr>))"
proof (cases "db k")
  case (Inl x)
  then show ?thesis by (simp add: loadDataFromDBtoYjs_def)
next
  case (Inr items)
  have "snd (loadDataFromDBtoYjs db k s) = fold (transact k) (batches items) s"
    by (simp add: loadDataFromDBtoYjs_def Inr loadBatches_fold batches_def)
  then show ?thesis
    by (cases "ydoc s") (simp_all add: Inr transact_fold fold_set_items concat_batches)
qed

lemma filter_tagged:
  "filter (\<lambda>t. fst t = k) (map (Pair k') bs) = (if k' = k then map (Pair k') bs else [])"
  by (induction bs) auto

lemma view_load:
  "table_view k (snd (loadDataFromDBtoYjs db k' s)) =
     (if k' = k
      then (case db k of
              Inl x \<Rightarrow> table_view k s
            | Inr items \<Rightarrow>
                map_option (\<lambda>(m, t). (set_items items m, t @ map (Pair k) (batches items)))
                  (table_view k s))
      else table_view k s)"
  by (cases "db k'"; cases "ydoc s")
     (auto simp: load_closed table_view_def filter_tagged)

lemma snd_promise_all_Cons:
  "snd (promise_all (f # fs) s) = snd (promise_all fs (snd (f s)))"
  by (simp split: prod.splits)

lemma initSync_state:
  "snd (initSync db s) =
     snd (loadDataFromDBtoYjs db Plugins
       (snd (loadDataFromDBtoYjs db Messages
         (snd (loadDataFromDBtoYjs db Topics
           (snd (loadDataFromDBtoYjs db SessionGroups
             (snd (loadDataFromDBtoYjs db Sessions s)))))))))"
  unfolding initSync_def tableKeys_def list.map snd_promise_all_Cons by simp

text \<open>
  C4. Whatever the reads of the other tables do (succeed or reject), what \<open>initSync\<close>
  leaves in the document for a table (its replicated map and the transactions on
  it) is what the load of that table alone leaves: a rejected load stops no other load
  and undoes none.
\<close>

theorem initSync_isolates_tables:
  "table_view k (snd (initSync db s)) = table_view k (snd (loadDataFromDBtoYjs db k s))"
  by (cases k) (simp_all add: initSync_state view_load split: sum.splits)

lemma set_items_dom: "dom (set_items xs m) = dom m \<union> item_id ` set xs"
  by (induction xs arbitrary: m) (auto simp: set_items_def)

lemma set_items_other: "i \<notin> item_id ` set xs \<Longrightarrow> set_items xs m i = m i"
  by (induction xs arbitrary: m) (auto simp: set_items_def)

lemma set_items_Cons: "set_items (x # xs) m = set_items xs (m(item_id x \<mapsto> x))"
  by (simp add: set_items_def)

lemma set_items_member:
  "distinct (map item_id xs) \<Longrightarrow> x \<in> set xs \<Longrightarrow> set_items xs m (item_id x) = Some x"
proof (induction xs arbitrary: m)
  case Nil
  then show ?case by simp
next
  case (Cons y ys)
  show ?case
  proof (cases "x = y")
    case True
    then have "item_id x \<notin> item_id ` set ys" using Cons.prems(1) by simp
    then show ?thesis by (simp add: set_items_Cons set_items_other True)
  next
    case False
    then show ?thesis using Cons by (simp add: set_items_Cons)
  qed
qed

lemma set_items_empty_card:
  assumes "distinct (map item_id xs)"
  shows "card (dom (set_items xs Map.empty)) = length xs"
proof -
  have "card (set (map item_id xs)) = length (map item_id xs)" using assms by (rule distinct_card)
  then show ?thesis by (simp add: set_items_dom)
qed

lemma batches_123:
  assumes "length items = 123"
  shows "map length (batches items) = [50, 50, 23]"
proof -
  have t: "totalBatches 123 = 3" by (simp add: totalBatches_div)
  have u: "[0..<3] = [0, Suc 0, 2]" by (simp add: upt_rec)
  show ?thesis
    using batch_length [of 0 123 items] batch_length [of 1 123 items] batch_length [of 2 123 items]
    by (simp add: batches_def assms t u)
qed


lemma batch_nth:
  assumes "j < length (batches items)"
  shows "batches items ! j = take 50 (drop (j * 50) items) \<and>
         length (batches items ! j) \<le> 50 \<and> batches items ! j \<noteq> []"
proof -
  define n where "n = length items"
  have j: "j < totalBatches n" using assms by (simp add: batches_def n_def)
  have eq: "batches items ! j = take 50 (drop (j * 50) items)"
    using j by (simp add: batches_def slice_def batchSize_def n_def)
  have "Suc j \<le> (n + 49) div 50" using j by (simp add: totalBatches_div)
  then have "Suc j * 50 \<le> (n + 49) div 50 * 50" by (rule mult_le_mono1)
  then have "j * 50 < n" using div50_bounds(2) [of n] by simp
  then have "take 50 (drop (j * 50) items) \<noteq> []" by (simp add: n_def)
  then show ?thesis using eq by simp
qed

text \<open>
  C2, as amended. In a session with a document, for a table whose local store holds \<open>n\<close>
  records with distinct identifiers, the load makes exactly \<open>ceil(n/50)\<close> transactions, one
  after the other; the \<open>j\<close>-th sets the records \<open>50j\<close> up to \<open>50j + 50\<close> (a contiguous,
  non-empty batch of at most 50), and the batches in order make up the table. Afterwards
  the map holds each of the \<open>n\<close> records under its identifier and is unchanged at every
  other identifier; a map that was empty before holds exactly \<open>n\<close> entries. For \<open>n = 123\<close>
  the batches have 50, 50 and 23 records.
\<close>

theorem bootstrap_load_batches:
  assumes doc: "ydoc s = Some d" and rd: "db k = Inr items"
    and ids: "distinct (map item_id items)"
  shows "fst (loadDataFromDBtoYjs db k s) = Returned () \<and>
    transactions (docs (snd (loadDataFromDBtoYjs db k s)) d) =
      transactions (docs s d) @ map (Pair k) (batches items) \<and>
    length (batches items) = nat \<lceil>real (length items) / 50\<rceil> \<and>
    concat (batches items) = items \<and>
    (\<forall>j < length (batches items).
        batches items ! j = take 50 (drop (j * 50) items) \<and>
        length (batches items ! j) \<le> 50 \<and> batches items ! j \<noteq> []) \<and>
    (\<forall>x \<in> set items. ymaps (docs (snd (loadDataFromDBtoYjs db k s)) d) k (item_id x) = Some x) \<and>
    (\<forall>i. i \<notin> item_id ` set items \<longrightarrow>
        ymaps (docs (snd (loadDataFromDBtoYjs db k s)) d) k i = ymaps (docs s d) k i) \<and>
    (ymaps (docs s d) k = Map.empty \<longrightarrow>
        card (dom (ymaps (docs (snd (loadDataFromDBtoYjs db k s)) d) k)) = length items) \<and>
    (length items = 123 \<longrightarrow> map length (batches items) = [50, 50, 23])"
proof -
  let ?s' = "snd (loadDataFromDBtoYjs db k s)"
  have m: "ymaps (docs ?s' d) k = set_items items (ymaps (docs s d) k)"
    and t: "transactions (docs ?s' d) = transactions (docs s d) @ map (Pair k) (batches items)"
    by (simp_all add: load_closed rd doc)
  have r: "fst (loadDataFromDBtoYjs db k s) = Returned ()"
    by (simp add: loadDataFromDBtoYjs_def rd)
  have c: "length (batches items) = nat \<lceil>real (length items) / 50\<rceil>"
    by (simp add: batches_def totalBatches_def batchSize_def)
  have e: "ymaps (docs s d) k = Map.empty \<longrightarrow> card (dom (ymaps (docs ?s' d) k)) = length items"
    using set_items_empty_card [OF ids] by (simp add: m)
  have b: "\<forall>j < length (batches items).
        batches items ! j = take 50 (drop (j * 50) items) \<and>
        length (batches items ! j) \<le> 50 \<and> batches items ! j \<noteq> []"
    using batch_nth by blast
  have x: "\<forall>x \<in> set items. ymaps (docs ?s' d) k (item_id x) = Some x"
    by (simp add: m set_items_member [OF ids])
  have o: "\<forall>i. i \<notin> item_id ` set items \<longrightarrow> ymaps (docs ?s' d) k i = ymaps (docs s d) k i"
    by (simp add: m set_items_other)
  have l: "length items = 123 \<longrightarrow> map length (batches items) = [50, 50, 23]"
    using batches_123 by blast
  from r t c concat_batches [of items] b x o e l show ?thesis by blast
qed

theorem bootstrap_load_witness:
  "fst (loadDataFromDBtoYjs broken_db Topics session_state) = Returned () \<and>
   transactions (docs (snd (loadDataFromDBtoYjs broken_db Topics session_state)) 0) =
     [(Topics, [item_1, item_2])] \<and>
   ymaps (docs (snd (loadDataFromDBtoYjs broken_db Topics session_state)) 0) Topics ''2'' =
     Some item_2 \<and>
   card (dom (ymaps (docs (snd (loadDataFromDBtoYjs broken_db Topics session_state)) 0) Topics)) = 2"
proof -
  have doc: "ydoc session_state = Some 0"
    by (simp add: session_state_def run_defs production_def)
  have rd: "broken_db Topics = Inr [item_1, item_2]" by (simp add: broken_db_def)
  have ids: "distinct (map item_id [item_1, item_2])" by (simp add: item_1_def item_2_def)
  have em: "ymaps (docs session_state 0) Topics = Map.empty"
    and tr: "transactions (docs session_state 0) = []"
    by (simp_all add: session_state_def run_defs production_def empty_doc_def)
  have b: "batches [item_1, item_2] = [[item_1, item_2]]"
    by (simp add: batches_def totalBatches_div slice_def batchSize_def)
  have i2: "item_id item_2 = ''2''" by (simp add: item_2_def)
  show ?thesis
    using bootstrap_load_batches [where db = broken_db and k = Topics, OF doc rd ids] em tr b i2
    by auto
qed

text \<open>
  C2 as stated fails where the map already holds a record of a peer under another
  identifier: the load of a one-record table leaves two entries in the map.
\<close>

theorem bootstrap_load_counterexample:
  "card (dom (ymaps (docs (snd (loadDataFromDBtoYjs (\<lambda>k. Inr [item_1]) Sessions peer_state)) 0)
       Sessions)) = 2 \<and>
   length [item_1] = 1 \<and>
   ymaps (docs (snd (loadDataFromDBtoYjs (\<lambda>k. Inr [item_1]) Sessions peer_state)) 0)
       Sessions ''r'' = Some item_r"
proof -
  have doc: "ydoc peer_state = Some 0"
    by (simp add: peer_state_def session_state_def run_defs production_def)
  have m: "ymaps (docs peer_state 0) Sessions = [''r'' \<mapsto> item_r]"
    by (simp add: peer_state_def)
  have "ymaps (docs (snd (loadDataFromDBtoYjs (\<lambda>k. Inr [item_1]) Sessions peer_state)) 0) Sessions
        = [''r'' \<mapsto> item_r, ''1'' \<mapsto> item_1]"
    by (simp add: load_closed doc m set_items_def item_1_def)
  then show ?thesis by simp
qed

theorem initSync_isolates_witness:
  "fst (initSync broken_db session_state) = Threw StoreError \<and>
   table_view Topics (snd (initSync broken_db session_state)) =
     Some ([''1'' \<mapsto> item_1, ''2'' \<mapsto> item_2], [(Topics, [item_1, item_2])])"
proof -
  have doc: "ydoc session_state = Some 0"
    by (simp add: session_state_def run_defs production_def)
  have em: "ymaps (docs session_state 0) Topics = Map.empty"
    and tr: "transactions (docs session_state 0) = []"
    by (simp_all add: session_state_def run_defs production_def empty_doc_def)
  have b: "batches [item_1, item_2] = [[item_1, item_2]]"
    by (simp add: batches_def totalBatches_div slice_def batchSize_def)
  have i: "item_id item_1 = ''1''" "item_id item_2 = ''2''"
    by (simp_all add: item_1_def item_2_def)
  have "table_view Topics (snd (loadDataFromDBtoYjs broken_db Topics session_state)) =
     Some ([''1'' \<mapsto> item_1, ''2'' \<mapsto> item_2], [(Topics, [item_1, item_2])])"
    by (simp add: table_view_def load_closed broken_db_def doc em tr b set_items_def i)
  moreover have "fst (initSync broken_db session_state) = Threw StoreError"
    by (simp add: initSync_def tableKeys_def loadDataFromDBtoYjs_def broken_db_def
        split: prod.splits)
  ultimately show ?thesis using initSync_isolates_tables [of Topics broken_db session_state]
    by simp
qed

section \<open>Properties of the change observer\<close>

lemma pool_start_frame:
  "timers (snd (pool_start ka s)) = timers s \<and> statusLog (snd (pool_start ka s)) = statusLog s \<and>
   debounceTimer (snd (pool_start ka s)) = debounceTimer s \<and>
   nextTimer (snd (pool_start ka s)) = nextTimer s \<and> pending (snd (pool_start ka s)) = pending s \<and>
   pool_key (fst (pool_start ka s)) = ka"
proof (cases ka)
  case (Pair i act)
  then show ?thesis
    by (cases act) (simp_all add: table_get_def table_delete_def pool_key_def)
qed

lemma pools_start_frame:
  "timers (snd (pools_start ks s)) = timers s \<and> statusLog (snd (pools_start ks s)) = statusLog s \<and>
   debounceTimer (snd (pools_start ks s)) = debounceTimer s \<and>
   nextTimer (snd (pools_start ks s)) = nextTimer s \<and> pending (snd (pools_start ks s)) = pending s \<and>
   map pool_key (fst (pools_start ks s)) = ks"
proof (induction ks arbitrary: s)
  case Nil
  then show ?case by simp
next
  case (Cons ka ks)
  obtain p s1 where 1: "pool_start ka s = (p, s1)" by (cases "pool_start ka s")
  obtain ps s2 where 2: "pools_start ks s1 = (ps, s2)" by (cases "pools_start ks s1")
  show ?case
    using pool_start_frame [of ka s] Cons.IH [of s1] by (simp add: 1 2)
qed

lemma pool_finish_frame:
  "timers (pool_finish ev p s) = timers s \<and> statusLog (pool_finish ev p s) = statusLog s \<and>
   debounceTimer (pool_finish ev p s) = debounceTimer s \<and>
   nextTimer (pool_finish ev p s) = nextTimer s \<and> pending (pool_finish ev p s) = pending s"
proof (cases p)
  case (fields i act v)
  then show ?thesis
    by (cases act) (simp_all add: table_add_def table_update_def)
qed

lemma pools_frame:
  "timers (fold (pool_finish ev) ps s) = timers s \<and>
   statusLog (fold (pool_finish ev) ps s) = statusLog s \<and>
   debounceTimer (fold (pool_finish ev) ps s) = debounceTimer s \<and>
   nextTimer (fold (pool_finish ev) ps s) = nextTimer s \<and>
   pending (fold (pool_finish ev) ps s) = pending s"
  by (induction ps arbitrary: s) (simp_all add: pool_finish_frame)

lemma fire_none_due:
  assumes "\<forall>(i, t) \<in> set (timers s). now < t"
  shows "fire now s = s"
proof -
  have "filter (\<lambda>(i, t). t \<le> now) (timers s) = []"
    using assms by (auto simp: filter_empty_conv)
  moreover have "filter (\<lambda>(i, t). \<not> t \<le> now) (timers s) = timers s"
    using assms by (auto simp: filter_id_conv)
  ultimately show ?thesis by (simp add: fire_def)
qed

lemma sequential_step:
  assumes p: "one_pending hi s" and r: "\<not> transaction_local ev" and a: "a < hi" and c: "a \<le> c"
  shows "timers (run [(a, Arrive ev), (c, Resume ev)] s) = [(nextTimer s, c + 2000)] \<and>
         debounceTimer (run [(a, Arrive ev), (c, Resume ev)] s) = Some (nextTimer s) \<and>
         statusLog (run [(a, Arrive ev), (c, Resume ev)] s) = statusLog s @ [(a, Syncing)] \<and>
         pending (run [(a, Arrive ev), (c, Resume ev)] s) = []"
proof -
  have f1: "fire a s = s" using p a by (intro fire_none_due) (auto simp: one_pending_def)
  define s0 where "s0 = (clearTimeout (debounceTimer s) s)\<lparr>statusLog := statusLog s @ [(a, Syncing)]\<rparr>"
  obtain ps s1 where bp: "pools_start (keys ev) s0 = (ps, s1)" by (cases "pools_start (keys ev) s0")
  have t0: "timers s0 = []" "statusLog s0 = statusLog s @ [(a, Syncing)]"
      "nextTimer s0 = nextTimer s" "pending s0 = []"
    using p by (auto simp: s0_def clearTimeout_def one_pending_def)
  have fr: "timers s1 = []" "statusLog s1 = statusLog s @ [(a, Syncing)]"
      "nextTimer s1 = nextTimer s" "pending s1 = []" "map pool_key ps = keys ev"
    using pools_start_frame [of "keys ev" s0] t0 by (simp_all add: bp)
  have bg: "begin_pools a ev s = (ps, s1)"
    by (simp add: begin_pools_def Let_def clearTimeout_def s0_def [symmetric] bp
        del: pools_start.simps)
       (simp add: s0_def clearTimeout_def bp [symmetric])
  let ?b = "s1\<lparr>pending := [ps]\<rparr>"
  have ob: "observe_begin a ev s = ?b" by (simp add: observe_begin_def bg fr)
  have f2: "fire c ?b = ?b" using fr(1) by (intro fire_none_due) simp
  have "observe_finish c ev ?b = finish_pools c ev ps (s1\<lparr>pending := []\<rparr>)"
    by (simp add: observe_finish_def fr)
  moreover have "run [(a, Arrive ev), (c, Resume ev)] s = observe_finish c ev ?b"
    using r f1 f2 ob by simp
  ultimately show ?thesis
    using fr pools_frame [of ev ps "s1\<lparr>pending := []\<rparr>"]
    by (simp add: finish_pools_def Let_def)
qed

lemma run_append: "run (xs @ ys) s = run ys (run xs s)"
  by (induction xs s rule: run.induct) simp_all

lemma debounce_sequential_gen:
  assumes "one_pending hi s" and "spaced lo hi evs" and "evs \<noteq> []"
  shows "statusLog (settle (run (sequential evs) s)) =
           statusLog s @ map (\<lambda>(a, c, ev). (a, Syncing)) evs
             @ [(fst (snd (last evs)) + 2000, Synced)]"
  using assms
proof (induction evs arbitrary: s lo hi)
  case Nil
  then show ?case by simp
next
  case (Cons e rest)
  obtain a c ev where e: "e = (a, c, ev)" by (cases e)
  define s1 where "s1 = run [(a, Arrive ev), (c, Resume ev)] s"
  have sp: "\<not> transaction_local ev" "a < hi" "a \<le> c" "spaced c (a + 2000) rest"
    using Cons.prems(2) e by simp_all
  have st: "timers s1 = [(nextTimer s, c + 2000)]"
      "debounceTimer s1 = Some (nextTimer s)"
      "statusLog s1 = statusLog s @ [(a, Syncing)]"
      "pending s1 = []"
    unfolding s1_def using sequential_step [OF Cons.prems(1) sp(1) sp(2) sp(3)] by blast+
  have "sequential (e # rest) = [(a, Arrive ev), (c, Resume ev)] @ sequential rest"
    by (simp add: sequential_def e)
  then have split: "run (sequential (e # rest)) s = run (sequential rest) s1"
    unfolding s1_def by (simp only: run_append)
  show ?case
  proof (cases "rest = []")
    case True
    have "sequential rest = []" using True by (simp add: sequential_def)
    then have "run (sequential (e # rest)) s = s1" by (simp add: split)
    then show ?thesis using st True by (simp add: settle_def e)
  next
    case False
    have "one_pending (a + 2000) s1" using st sp(3) by (simp add: one_pending_def)
    from Cons.IH [OF this sp(4) False] show ?thesis
      using st(3) False split by (simp add: e)
  qed
qed

lemma init_pending: "one_pending hi init_observer"
  by (simp add: one_pending_def init_observer_def)


text \<open>
  When no two callbacks overlap, the debounce works as the comment in the code says:
  every event emits \<open>syncing\<close> as it arrives and \<open>synced\<close> comes once, 2000 ms after the
  last callback finished.
\<close>

lemma debounce_sequential:
  assumes "spaced lo hi evs" and "evs \<noteq> []"
  shows "statusLog (settle (run (sequential evs) init_observer)) =
           map (\<lambda>(a, c, ev). (a, Syncing)) evs @ [(fst (snd (last evs)) + 2000, Synced)]"
  using debounce_sequential_gen [OF init_pending assms] by (simp add: init_observer_def)

lemma debounce_example:
  "statusLog (settle (run (sequential
      [(0, 0, remote_event), (500, 500, remote_event), (1000, 1000, remote_event)]) init_observer))
   = [(0, Syncing), (500, Syncing), (1000, Syncing), (3000, Synced)]"
proof -
  have "spaced 0 1
     [(0, 0, remote_event), (500, 500, remote_event), (1000, 1000, remote_event)]"
    by (simp add: remote_event_def)
  from debounce_sequential [OF this] show ?thesis by simp
qed

text \<open>
  C5 fails on the code. Four remote events arrive at 0, 10, 1990 and 2100 ms, each less
  than 2000 ms after the one before, and their store writes are done at 30, 40, 2020 and
  2110 ms. The first callback arms its timer at 30 ms, after the second event has already
  run \<open>clearTimeout\<close>; the third event clears only the timer the variable names, that of
  the second. The timer of the first fires at 2030 ms: \<open>synced\<close> is emitted between the
  third and the fourth event, and again at 4110 ms.
\<close>

theorem debounce_overlap_trace:
  "statusLog (settle (run
      [(0, Arrive remote_event), (10, Arrive remote_event),
       (30, Resume remote_event), (40, Resume remote_event),
       (1990, Arrive remote_event), (2020, Resume remote_event),
       (2100, Arrive remote_event), (2110, Resume remote_event)] init_observer))
   = [(0, Syncing), (10, Syncing), (1990, Syncing), (2030, Synced), (2100, Syncing),
      (4110, Synced)]"
  by (simp add: settle_def fire_def observe_begin_def observe_finish_def begin_pools_def
      finish_pools_def clearTimeout_def pool_key_def init_observer_def remote_event_def
      table_get_def table_add_def table_update_def yget_def Let_def)

text \<open>
  C3. For a change event whose transaction is local the callback returns at once: the
  local table and the calls on it, the status changes emitted, the pending timers and
  the timer variable are as before.
\<close>

theorem local_event_discarded:
  assumes "transaction_local ev"
  shows "observe now done ev s = s \<and>
         rows (observe now done ev s) = rows s \<and> calls (observe now done ev s) = calls s \<and>
         statusLog (observe now done ev s) = statusLog s \<and>
         timers (observe now done ev s) = timers s \<and>
         debounceTimer (observe now done ev s) = debounceTimer s"
  using assms by (simp add: observe_def)

theorem local_event_discarded_witness:
  "observe 5 7 local_event (observe 0 1 remote_event init_observer) =
     observe 0 1 remote_event init_observer"
proof -
  have "transaction_local local_event" by (simp add: local_event_def)
  from local_event_discarded [OF this, of 5 7 "observe 0 1 remote_event init_observer"]
  show ?thesis by simp
qed

text \<open>
  C7. An \<open>add\<close> for an identifier the local table holds is applied as an update of that
  record, with no insert; an \<open>update\<close> inserts when the table holds nothing under the
  identifier and updates otherwise (\<open>add\<close> and \<open>update\<close> are the same branch); a \<open>delete\<close> for
  an identifier the table does not hold is one \<open>delete\<close> call that leaves the table as it is.
\<close>

theorem action_mapping:
  "(rows s i = Some v \<and> v \<noteq> Undefined \<longrightarrow>
      apply_key ev (i, Add) s =
        s\<lparr>rows := (rows s)(i \<mapsto> yget ev i),
          calls := calls s @ [TableGet i, TableUpdate i (yget ev i)]\<rparr>) \<and>
   apply_key ev (i, Update) s =
     (if rows s i = None \<or> rows s i = Some Undefined
      then s\<lparr>rows := (rows s)(i \<mapsto> yget ev i),
             calls := calls s @ [TableGet i, TableAdd (yget ev i) i]\<rparr>
      else s\<lparr>rows := (rows s)(i \<mapsto> yget ev i),
             calls := calls s @ [TableGet i, TableUpdate i (yget ev i)]\<rparr>) \<and>
   apply_key ev (i, Add) s = apply_key ev (i, Update) s \<and>
   (rows s i = None \<longrightarrow>
      apply_key ev (i, Delete) s = s\<lparr>calls := calls s @ [TableDelete i]\<rparr>)"
  by (cases "rows s i")
     (auto simp: apply_key_def table_get_def table_add_def table_update_def table_delete_def
        fun_upd_idem)

theorem action_mapping_witness:
  "apply_key remote_event (''1'', Add) (observe 0 1 remote_event init_observer) =
     (observe 0 1 remote_event init_observer)
       \<lparr>rows := (rows (observe 0 1 remote_event init_observer))(''1'' \<mapsto> Obj item_1),
        calls := [TableGet ''1'', TableAdd (Obj item_1) ''1'',
                  TableGet ''1'', TableUpdate ''1'' (Obj item_1)]\<rparr> \<and>
   apply_key remote_event (''2'', Delete) init_observer =
     init_observer\<lparr>calls := [TableDelete ''2'']\<rparr>"
proof -
  let ?s = "observe 0 1 remote_event init_observer"
  have r: "rows ?s ''1'' = Some (Obj item_1)" "calls ?s = [TableGet ''1'', TableAdd (Obj item_1) ''1'']"
    by (simp_all add: observe_def begin_pools_def finish_pools_def clearTimeout_def
        init_observer_def remote_event_def table_get_def table_add_def yget_def Let_def)
  have y: "yget remote_event ''1'' = Obj item_1" by (simp add: yget_def remote_event_def)
  have n: "rows init_observer ''2'' = None" "calls init_observer = []"
    by (simp_all add: init_observer_def)
  show ?thesis
    using action_mapping [of ?s "''1''" "Obj item_1" remote_event]
      action_mapping [of init_observer "''2''" v remote_event] r y n
    by simp
qed

end
